theory Spec2Isabelle
  imports Main
begin

section \<open>Data model (component/schema.ts)\<close>

text \<open>
  Numbers. Every number the server functions handle is a JavaScript number that holds a
  count of milliseconds, minutes or days. They are modelled as unbounded integers, which is
  what double arithmetic computes as long as the values stay integral and below \<open>2 ^ 53\<close>
  in magnitude. Fractional arguments, NaN and the infinities are outside the model.

  \<open>Date.now()\<close> is an input of every handler: the parameter \<open>now\<close>.
\<close>

text \<open>\<open>metadata: v.optional(v.any())\<close>: an arbitrary Convex value, never inspected.\<close>

datatype convex_value =
    VNull
  | VBool bool
  | VNumber int
  | VString string
  | VArray "convex_value list"
  | VObject "(string \<times> convex_value) list"

text \<open>One element of \<open>actions\<close>.\<close>

record action_entry =
  action :: string
  timestamp :: int
  resourceId :: "string option"
  metadata :: "convex_value option"

text \<open>
  A document of the table \<open>sessions\<close>. \<open>doc_id\<close> is the system field \<open>_id\<close>; Convex
  identifiers are opaque strings, here the natural numbers handed out by a counter.
\<close>

record session =
  doc_id :: nat
  anonymousId :: string
  createdAt :: int
  lastActive :: int
  actions :: "action_entry list"

text \<open>
  The database as a mutation sees it: the documents of \<open>sessions\<close> in creation order
  (the order in which a query yields them), and the next identifier to hand out.
\<close>

record db =
  sessions :: "session list"
  next_id :: nat

definition empty_db :: db where
  "empty_db = \<lparr>sessions = [], next_id = 0\<rparr>"

text \<open>
  Identifiers are unique and were all handed out by the counter. Every database a
  sequence of mutations builds from \<open>empty_db\<close> is of this form.
\<close>

definition wf_db :: "db \<Rightarrow> bool" where
  "wf_db d = (distinct (map doc_id (sessions d)) \<and> list_all (\<lambda>s. doc_id s < next_id d) (sessions d))"

section \<open>The database operations the handlers call\<close>

text \<open>
  \<open>ctx.db.query('sessions').withIndex('by_anonymous_id', q => q.eq('anonymousId', a)).first()\<close>:
  the first document with that \<open>anonymousId\<close>, or \<open>null\<close>.
\<close>

definition first_by_anonymous_id :: "string \<Rightarrow> db \<Rightarrow> session option" where
  "first_by_anonymous_id a d = find (\<lambda>s. anonymousId s = a) (sessions d)"

text \<open>\<open>ctx.db.get(id)\<close>, used to state what a mutation did to one document.\<close>

definition db_get :: "nat \<Rightarrow> db \<Rightarrow> session option" where
  "db_get i d = find (\<lambda>s. doc_id s = i) (sessions d)"

text \<open>
  \<open>ctx.db.patch(id, fields)\<close>: the document with that identifier gets the fields, here as
  a function on documents. The handlers only patch a document they have just read.
\<close>

definition db_patch :: "nat \<Rightarrow> (session \<Rightarrow> session) \<Rightarrow> db \<Rightarrow> db" where
  "db_patch i f d = d\<lparr>sessions := map (\<lambda>s. if doc_id s = i then f s else s) (sessions d)\<rparr>"

text \<open>\<open>ctx.db.insert('sessions', fields)\<close>: a new document, last in creation order; returns its identifier.\<close>

definition db_insert :: "string \<Rightarrow> int \<Rightarrow> int \<Rightarrow> action_entry list \<Rightarrow> db \<Rightarrow> nat \<times> db" where
  "db_insert a c l acts d =
     (next_id d,
      \<lparr>sessions = sessions d @ [\<lparr>doc_id = next_id d, anonymousId = a, createdAt = c,
                                  lastActive = l, actions = acts\<rparr>],
       next_id = Suc (next_id d)\<rparr>)"

text \<open>\<open>ctx.db.delete(id)\<close>. The handler only deletes documents it has just read.\<close>

definition db_delete :: "nat \<Rightarrow> db \<Rightarrow> db" where
  "db_delete i d = d\<lparr>sessions := filter (\<lambda>s. doc_id s \<noteq> i) (sessions d)\<rparr>"

section \<open>The server functions (component/sessions)\<close>

datatype error = Error string

text \<open>\<open>trackSession\<close>: returns the identifier of the session and the new database.\<close>

definition trackSession :: "string \<Rightarrow> int \<Rightarrow> db \<Rightarrow> nat \<times> db" where
  "trackSession a now d =
     (case first_by_anonymous_id a d of
        Some existing \<Rightarrow>
          (doc_id existing, db_patch (doc_id existing) (\<lambda>s. s\<lparr>lastActive := now\<rparr>) d)
      | None \<Rightarrow> db_insert a now now [] d)"

text \<open>
  \<open>trackUserAction\<close>: throws \<open>Error('Session not found')\<close> when the lookup yields \<open>null\<close>;
  otherwise patches \<open>lastActive\<close> and \<open>actions\<close>, the latter built from the document read.
  The result is the outcome together with the database as the handler leaves it, so that
  what a failing call has written can be stated.
\<close>

definition trackUserAction ::
  "string \<Rightarrow> string \<Rightarrow> string option \<Rightarrow> convex_value option \<Rightarrow> int \<Rightarrow> db \<Rightarrow> (error + unit) \<times> db" where
  "trackUserAction a act rid md now d =
     (case first_by_anonymous_id a d of
        None \<Rightarrow> (Inl (Error ''Session not found''), d)
      | Some session \<Rightarrow>
          (Inr (),
           db_patch (doc_id session)
             (\<lambda>s. s\<lparr>lastActive := now,
                     actions := actions session @
                       [\<lparr>action = act, timestamp = now, resourceId = rid, metadata = md\<rparr>]\<rparr>)
             d))"

text \<open>
  \<open>getActiveSessions\<close>: \<open>minutesActive\<close> is optional and defaults to 15; the filter is
  \<open>q.gt(q.field('lastActive'), cutoff)\<close>.
\<close>

definition getActiveSessions :: "int option \<Rightarrow> int \<Rightarrow> db \<Rightarrow> session list" where
  "getActiveSessions minutesActive_arg now d =
     (let minutesActive = (case minutesActive_arg of None \<Rightarrow> 15 | Some m \<Rightarrow> m);
          cutoff = now - (minutesActive * 60 * 1000)
      in filter (\<lambda>s. lastActive s > cutoff) (sessions d))"

text \<open>The loop of \<open>cleanupSessionsHandler\<close>: one \<open>delete\<close> and one increment per old session.\<close>

fun delete_each :: "session list \<Rightarrow> db \<Rightarrow> int \<Rightarrow> db \<times> int" where
  "delete_each [] d deletedCount = (d, deletedCount)"
| "delete_each (s # ss) d deletedCount = delete_each ss (db_delete (doc_id s) d) (deletedCount + 1)"

text \<open>
  A JavaScript object with number-valued properties, as the list of its properties;
  reading a property that is not there gives \<open>undefined\<close>, here \<open>None\<close>.
\<close>

type_synonym js_object = "(string \<times> int) list"

definition property :: "js_object \<Rightarrow> string \<Rightarrow> int option" where
  "property obj k = map_of obj k"

text \<open>
  \<open>cleanupSessionsHandler\<close>, the handler of \<open>cleanupOldSessions\<close> and of
  \<open>cleanupOldSessions_internal\<close>: \<open>daysInactive\<close> is optional and defaults to 30; the
  filter is \<open>q.lt(q.field('lastActive'), cutoff)\<close>; the result is the object
  \<open>{deletedCount, oldestDate: cutoff}\<close>.
\<close>

definition cleanupSessionsHandler :: "int option \<Rightarrow> int \<Rightarrow> db \<Rightarrow> js_object \<times> db" where
  "cleanupSessionsHandler daysInactive_arg now d =
     (let daysInactive = (case daysInactive_arg of None \<Rightarrow> 30 | Some n \<Rightarrow> n);
          cutoff = now - (daysInactive * 24 * 60 * 60 * 1000);
          oldSessions = filter (\<lambda>s. lastActive s < cutoff) (sessions d);
          (d', deletedCount) = delete_each oldSessions d 0
      in ([(''deletedCount'', deletedCount), (''oldestDate'', cutoff)], d'))"

definition cleanupOldSessions :: "int option \<Rightarrow> int \<Rightarrow> db \<Rightarrow> js_object \<times> db" where
  "cleanupOldSessions = cleanupSessionsHandler"

section \<open>Sequences of calls\<close>

text \<open>
  \<open>trackUserAction\<close> called once per element of a list, for one \<open>anonymousId\<close>, each
  call with its own arguments and its own time; a call that throws ends the sequence.
\<close>

type_synonym action_call = "string \<times> string option \<times> convex_value option \<times> int"

definition entry_of :: "action_call \<Rightarrow> action_entry" where
  "entry_of c = (case c of (act, rid, md, now) \<Rightarrow>
     \<lparr>action = act, timestamp = now, resourceId = rid, metadata = md\<rparr>)"

fun trackUserActions :: "string \<Rightarrow> action_call list \<Rightarrow> db \<Rightarrow> (error + unit) \<times> db" where
  "trackUserActions a [] d = (Inr (), d)"
| "trackUserActions a ((act, rid, md, now) # cs) d =
     (case trackUserAction a act rid md now d of
        (Inl e, d') \<Rightarrow> (Inl e, d')
      | (Inr u, d') \<Rightarrow> trackUserActions a cs d')"

text \<open>
  A history of the store: calls of \<open>trackSession\<close> and \<open>trackUserAction\<close>, each with the
  time at which it runs, executed one after the other.
\<close>

datatype call =
    Upsert string
  | AppendAction string string "string option" "convex_value option"

fun step :: "int \<times> call \<Rightarrow> db \<Rightarrow> db" where
  "step (now, Upsert a) d = snd (trackSession a now d)"
| "step (now, AppendAction a act rid md) d = snd (trackUserAction a act rid md now d)"

fun run :: "(int \<times> call) list \<Rightarrow> db \<Rightarrow> db" where
  "run [] d = d"
| "run (c # cs) d = run cs (step c d)"

section \<open>The client hook (client)\<close>

text \<open>
  What the effect of \<open>useSessionTracker\<close> sees of its environment. \<open>window_defined\<close> says
  whether \<open>typeof window\<close> is something other than \<open>'undefined'\<close>. \<open>localStorage\<close> is the
  global of that name: \<open>None\<close> when reading it throws (the global does not exist, as in a
  runtime that defines \<open>window\<close> without Web Storage, or access to it is blocked),
  otherwise the stored items and whether the storage takes a write (\<open>setItem\<close> throws
  when the quota is exhausted or writing is refused).
\<close>

record web_storage =
  items :: "string \<rightharpoonup> string"
  accepts_writes :: bool

record env =
  window_defined :: bool
  localStorage :: "web_storage option"

text \<open>What the two storage calls of the effect can throw.\<close>

datatype dom_exception = StorageAccessError | QuotaExceededError

text \<open>\<open>localStorage.getItem(k)\<close>: the stored string, \<open>null\<close> for a missing key.\<close>

definition getItem :: "string \<Rightarrow> env \<Rightarrow> dom_exception + string option" where
  "getItem k e =
     (case localStorage e of
        None \<Rightarrow> Inl StorageAccessError
      | Some s \<Rightarrow> Inr (items s k))"

text \<open>\<open>localStorage.setItem(k, v)\<close>.\<close>

definition setItem :: "string \<Rightarrow> string \<Rightarrow> env \<Rightarrow> dom_exception + env" where
  "setItem k v e =
     (case localStorage e of
        None \<Rightarrow> Inl StorageAccessError
      | Some s \<Rightarrow>
          if accepts_writes s
          then Inr (e\<lparr>localStorage := Some (s\<lparr>items := (items s)(k \<mapsto> v)\<rparr>)\<rparr>)
          else Inl QuotaExceededError)"

text \<open>JavaScript truthiness of \<open>string | null\<close>: \<open>null\<close> and the empty string are falsy.\<close>

definition truthy :: "string option \<Rightarrow> bool" where
  "truthy v = (case v of None \<Rightarrow> False | Some s \<Rightarrow> s \<noteq> [])"

text \<open>\<open>a || b\<close> for \<open>a: string | null\<close> and \<open>b: string\<close>: \<open>a\<close> when it is truthy, else \<open>b\<close>.\<close>

definition or_else :: "string option \<Rightarrow> string \<Rightarrow> string" where
  "or_else a b = (case a of None \<Rightarrow> b | Some s \<Rightarrow> if s \<noteq> [] then s else b)"

text \<open>
  The effect of \<open>useSessionTracker\<close> up to \<open>setAnonymousId(id)\<close>. \<open>uuid\<close> is what
  \<open>uuidv4()\<close> returns if it is called; \<open>st\<close> is the state \<open>anonymousId\<close> before the
  effect. The only guard is the test of \<open>window\<close>; neither storage call is inside a
  \<open>try\<close>, so what they throw leaves the effect before \<open>setAnonymousId\<close> is reached.
  The result is that exception, or the state after the effect and the environment it
  leaves. The calls of \<open>trackSession\<close> that follow (one at once, one per heartbeat)
  touch neither the state nor the storage.
\<close>

definition useSessionTracker_effect ::
  "string \<Rightarrow> string \<Rightarrow> string option \<Rightarrow> env \<Rightarrow> dom_exception + (string option \<times> env)" where
  "useSessionTracker_effect storageKey uuid st e =
     (if \<not> window_defined e then Inr (st, e)
      else
        case getItem storageKey e of
          Inl x \<Rightarrow> Inl x
        | Inr storedId \<Rightarrow>
            let ident = or_else storedId uuid
            in if \<not> truthy storedId
               then (case setItem storageKey ident e of
                       Inl x \<Rightarrow> Inl x
                     | Inr e' \<Rightarrow> Inr (Some ident, e'))
               else Inr (Some ident, e))"

text \<open>
  \<open>useSessionTracker\<close> as its caller sees it once the component is mounted: the state
  starts as \<open>null\<close> (\<open>useState(null)\<close>), the effect runs, and the hook returns the state,
  unless the effect threw.
\<close>

definition useSessionTracker ::
  "string \<Rightarrow> string \<Rightarrow> env \<Rightarrow> dom_exception + (string option \<times> env)" where
  "useSessionTracker storageKey uuid e = useSessionTracker_effect storageKey uuid None e"

section \<open>Properties of the database operations\<close>

lemma wf_db_empty: "wf_db empty_db"
  by (simp add: wf_db_def empty_db_def)

lemma find_SomeD: "find P xs = Some s \<Longrightarrow> s \<in> set xs \<and> P s"
  by (induction xs) (auto split: if_splits)

lemma find_None_conv: "(find P xs = None) = (\<forall>x\<in>set xs. \<not> P x)"
  by (induction xs) auto

lemma first_by_anonymous_id_None:
  "(first_by_anonymous_id a d = None) = (a \<notin> anonymousId ` set (sessions d))"
  by (auto simp: first_by_anonymous_id_def find_None_conv)

lemma first_by_anonymous_id_Some:
  "first_by_anonymous_id a d = Some s \<Longrightarrow> s \<in> set (sessions d) \<and> anonymousId s = a"
  unfolding first_by_anonymous_id_def by (drule find_SomeD) simp

lemma same_id_same_doc:
  "distinct (map doc_id xs) \<Longrightarrow> s \<in> set xs \<Longrightarrow> x \<in> set xs \<Longrightarrow> (doc_id x = doc_id s) = (x = s)"
  by (auto simp: distinct_map inj_on_def)

lemma patch_as_replace:
  assumes "wf_db d" and "s \<in> set (sessions d)"
  shows "db_patch (doc_id s) f d = d\<lparr>sessions := map (\<lambda>x. if x = s then f s else x) (sessions d)\<rparr>"
proof -
  have dist: "distinct (map doc_id (sessions d))"
    using assms(1) by (simp add: wf_db_def)
  have "map (\<lambda>x. if doc_id x = doc_id s then f x else x) (sessions d) =
        map (\<lambda>x. if x = s then f s else x) (sessions d)"
    by (rule map_cong[OF refl]) (use same_id_same_doc[OF dist assms(2)] in auto)
  then show ?thesis by (simp add: db_patch_def)
qed

lemma map_doc_id_patch:
  assumes "\<And>s. doc_id (f s) = doc_id s"
  shows "map doc_id (map (\<lambda>s. if doc_id s = i then f s else s) xs) = map doc_id xs"
  by (induction xs) (simp_all add: assms)

lemma wf_db_patch:
  assumes "wf_db d" and "\<And>s. doc_id (f s) = doc_id s"
  shows "wf_db (db_patch i f d)"
proof -
  have ids: "map doc_id (sessions (db_patch i f d)) = map doc_id (sessions d)"
    using map_doc_id_patch[of f i "sessions d", OF assms(2)] by (simp add: db_patch_def)
  have "list_all (\<lambda>s. doc_id s < next_id d) (sessions d) = list_all (\<lambda>n. n < next_id d) (map doc_id (sessions d))"
    by (simp add: list_all_iff)
  moreover have "list_all (\<lambda>s. doc_id s < next_id d) (sessions (db_patch i f d)) =
      list_all (\<lambda>n. n < next_id d) (map doc_id (sessions (db_patch i f d)))"
    by (simp add: list_all_iff)
  moreover have "next_id (db_patch i f d) = next_id d"
    by (simp add: db_patch_def)
  ultimately show ?thesis
    using assms(1) unfolding wf_db_def ids by simp
qed

lemma entry_of_simp:
  "entry_of (act, rid, md, now) = \<lparr>action = act, timestamp = now, resourceId = rid, metadata = md\<rparr>"
  by (simp add: entry_of_def)

lemma find_map_keep:
  assumes "\<And>x. P (g x) = P x"
  shows "find P (map g xs) = map_option g (find P xs)"
  by (induction xs) (simp_all add: assms)

lemma first_after_patch:
  assumes "first_by_anonymous_id a d = Some s" and "\<And>x. anonymousId (f x) = anonymousId x"
  shows "first_by_anonymous_id a (db_patch (doc_id s) f d) = Some (f s)"
proof -
  have "find (\<lambda>x. anonymousId x = a) (map (\<lambda>x. if doc_id x = doc_id s then f x else x) (sessions d)) =
        map_option (\<lambda>x. if doc_id x = doc_id s then f x else x) (find (\<lambda>x. anonymousId x = a) (sessions d))"
    by (rule find_map_keep) (simp add: assms(2))
  with assms(1) show ?thesis
    by (simp add: first_by_anonymous_id_def db_patch_def)
qed

lemma trackUserAction_found:
  assumes "first_by_anonymous_id a d = Some s"
  shows "trackUserAction a act rid md now d =
           (Inr (), db_patch (doc_id s)
              (\<lambda>x. x\<lparr>lastActive := now, actions := actions s @ [entry_of (act, rid, md, now)]\<rparr>) d)"
    and "first_by_anonymous_id a (snd (trackUserAction a act rid md now d)) =
           Some (s\<lparr>lastActive := now, actions := actions s @ [entry_of (act, rid, md, now)]\<rparr>)"
proof -
  show 1: "trackUserAction a act rid md now d =
           (Inr (), db_patch (doc_id s)
              (\<lambda>x. x\<lparr>lastActive := now, actions := actions s @ [entry_of (act, rid, md, now)]\<rparr>) d)"
    using assms by (simp add: trackUserAction_def entry_of_simp)
  show "first_by_anonymous_id a (snd (trackUserAction a act rid md now d)) =
           Some (s\<lparr>lastActive := now, actions := actions s @ [entry_of (act, rid, md, now)]\<rparr>)"
    unfolding 1 snd_conv by (rule first_after_patch[OF assms, THEN trans]) simp_all
qed

lemma trackUserActions_found:
  "first_by_anonymous_id a d = Some s \<Longrightarrow>
   \<exists>d' s'. trackUserActions a cs d = (Inr (), d') \<and> first_by_anonymous_id a d' = Some s' \<and>
     doc_id s' = doc_id s \<and> createdAt s' = createdAt s \<and>
     actions s' = actions s @ map entry_of cs"
proof (induction cs arbitrary: d s)
  case Nil
  then show ?case by simp
next
  case (Cons c cs)
  obtain act rid md now where c: "c = (act, rid, md, now)"
    by (cases c) auto
  let ?s1 = "s\<lparr>lastActive := now, actions := actions s @ [entry_of (act, rid, md, now)]\<rparr>"
  obtain d1 where step: "trackUserAction a act rid md now d = (Inr (), d1)"
    using trackUserAction_found(1)[OF Cons.prems] by simp
  have "first_by_anonymous_id a d1 = Some ?s1"
    using trackUserAction_found(2)[OF Cons.prems, of act rid md now] by (simp add: step)
  from Cons.IH[OF this] obtain d' s' where r:
    "trackUserActions a cs d1 = (Inr (), d')" "first_by_anonymous_id a d' = Some s'"
    "doc_id s' = doc_id s" "createdAt s' = createdAt s"
    "actions s' = actions s @ entry_of c # map entry_of cs"
    by (auto simp: c)
  have "trackUserActions a (c # cs) d = (Inr (), d')"
    by (simp add: c step r(1))
  with r show ?case by simp
qed


lemma wf_db_insert: "wf_db d \<Longrightarrow> wf_db (snd (db_insert a c l acts d))"
  by (auto simp: wf_db_def db_insert_def list_all_iff less_Suc_eq)

lemma wf_db_trackSession: "wf_db d \<Longrightarrow> wf_db (snd (trackSession a now d))"
  by (auto simp: trackSession_def wf_db_patch wf_db_insert split: option.splits)

lemma wf_db_trackUserAction: "wf_db d \<Longrightarrow> wf_db (snd (trackUserAction a act rid md now d))"
  by (auto simp: trackUserAction_def wf_db_patch split: option.splits)

lemma delete_each_eq:
  "delete_each ss d n =
     (d\<lparr>sessions := filter (\<lambda>s. doc_id s \<notin> doc_id ` set ss) (sessions d)\<rparr>, n + int (length ss))"
proof (induction ss arbitrary: d n)
  case Nil
  then show ?case by simp
next
  case (Cons s ss)
  show ?case
    by (simp add: Cons.IH db_delete_def conj_commute cong: filter_cong)
qed

lemma filter_by_ids:
  assumes "distinct (map doc_id xs)"
  shows "filter (\<lambda>s. doc_id s \<notin> doc_id ` set (filter P xs)) xs = filter (\<lambda>s. \<not> P s) xs"
proof (rule filter_cong[OF refl])
  fix s assume s: "s \<in> set xs"
  from assms have "inj_on doc_id (set xs)" by (simp add: distinct_map)
  with s show "(doc_id s \<notin> doc_id ` set (filter P xs)) = (\<not> P s)"
    by (auto simp: inj_on_def image_iff)
qed

lemma cleanupSessionsHandler_eq:
  assumes "wf_db d"
  shows "cleanupSessionsHandler arg now d =
     ([(''deletedCount'',
         int (length (filter (\<lambda>s. lastActive s < now - (case arg of None \<Rightarrow> 30 | Some n \<Rightarrow> n) * 86400000) (sessions d)))),
       (''oldestDate'', now - (case arg of None \<Rightarrow> 30 | Some n \<Rightarrow> n) * 86400000)],
      d\<lparr>sessions := filter (\<lambda>s. \<not> lastActive s < now - (case arg of None \<Rightarrow> 30 | Some n \<Rightarrow> n) * 86400000) (sessions d)\<rparr>)"
proof -
  have dist: "distinct (map doc_id (sessions d))"
    using assms by (simp add: wf_db_def)
  have ms: "(x::int) * 24 * 60 * 60 * 1000 = x * 86400000" for x
    by simp
  show ?thesis
    unfolding cleanupSessionsHandler_def Let_def delete_each_eq ms filter_by_ids[OF dist]
    by simp
qed

lemma wf_db_filter: "wf_db d \<Longrightarrow> wf_db (d\<lparr>sessions := filter P (sessions d)\<rparr>)"
  by (auto simp: wf_db_def list_all_iff distinct_map_filter)

lemma length_filter_split:
  "int (length (filter P xs)) = int (length xs) - int (length (filter (\<lambda>x. \<not> P x) xs))"
  using sum_length_filter_compl[of P xs] by simp

section \<open>Histories of trackSession and trackUserAction\<close>

lemma step_cases:
  "(\<exists>g. sessions (step c d) = map g (sessions d) \<and> next_id (step c d) = next_id d \<and>
        (\<forall>x. doc_id (g x) = doc_id x \<and> anonymousId (g x) = anonymousId x \<and>
             createdAt (g x) = createdAt x \<and>
             (lastActive (g x) = lastActive x \<or> lastActive (g x) = fst c))) \<or>
   (\<exists>a. sessions (step c d) =
          sessions d @ [\<lparr>doc_id = next_id d, anonymousId = a, createdAt = fst c,
                          lastActive = fst c, actions = []\<rparr>] \<and>
        a \<notin> anonymousId ` set (sessions d) \<and> next_id (step c d) = Suc (next_id d))"
proof -
  obtain now k where c: "c = (now, k)" by (cases c) auto
  show ?thesis
  proof (cases k)
    case (Upsert a)
    show ?thesis
    proof (cases "first_by_anonymous_id a d")
      case None
      then have "a \<notin> anonymousId ` set (sessions d)"
        by (simp add: first_by_anonymous_id_None)
      with None show ?thesis
        by (simp add: c Upsert trackSession_def db_insert_def)
    next
      case (Some e)
      let ?g = "\<lambda>s. if doc_id s = doc_id e then s\<lparr>lastActive := now\<rparr> else s"
      have "sessions (step c d) = map ?g (sessions d) \<and> next_id (step c d) = next_id d"
        using Some by (simp add: c Upsert trackSession_def db_patch_def)
      moreover have "\<forall>x. doc_id (?g x) = doc_id x \<and> anonymousId (?g x) = anonymousId x \<and>
             createdAt (?g x) = createdAt x \<and>
             (lastActive (?g x) = lastActive x \<or> lastActive (?g x) = fst c)"
        by (simp add: c)
      ultimately show ?thesis by blast
    qed
  next
    case (AppendAction a act rid md)
    show ?thesis
    proof (cases "first_by_anonymous_id a d")
      case None
      then have "sessions (step c d) = map (\<lambda>s. s) (sessions d) \<and> next_id (step c d) = next_id d"
        by (simp add: c AppendAction trackUserAction_def)
      then show ?thesis by blast
    next
      case (Some e)
      let ?g = "\<lambda>s. if doc_id s = doc_id e
                     then s\<lparr>lastActive := now,
                            actions := actions e @ [\<lparr>action = act, timestamp = now, resourceId = rid, metadata = md\<rparr>]\<rparr>
                     else s"
      have "sessions (step c d) = map ?g (sessions d) \<and> next_id (step c d) = next_id d"
        using Some by (simp add: c AppendAction trackUserAction_def db_patch_def)
      moreover have "\<forall>x. doc_id (?g x) = doc_id x \<and> anonymousId (?g x) = anonymousId x \<and>
             createdAt (?g x) = createdAt x \<and>
             (lastActive (?g x) = lastActive x \<or> lastActive (?g x) = fst c)"
        by (simp add: c)
      ultimately show ?thesis by blast
    qed
  qed
qed

lemma wf_db_step: "wf_db d \<Longrightarrow> wf_db (step c d)"
proof -
  assume w: "wf_db d"
  obtain now k where c: "c = (now, k)" by (cases c) auto
  show ?thesis
    by (cases k) (simp_all add: c w wf_db_trackSession wf_db_trackUserAction)
qed

lemma wf_db_run: "wf_db d \<Longrightarrow> wf_db (run cs d)"
  by (induction cs arbitrary: d) (simp_all add: wf_db_step)

lemma step_bound:
  assumes old: "\<forall>s\<in>set (sessions d). lastActive s \<le> u" and c: "fst c \<le> u"
  shows "\<forall>s\<in>set (sessions (step c d)). lastActive s \<le> u"
  using step_cases[of c d]
proof (elim disjE exE conjE)
  fix g
  assume eq: "sessions (step c d) = map g (sessions d)"
    and g: "\<forall>x. doc_id (g x) = doc_id x \<and> anonymousId (g x) = anonymousId x \<and>
             createdAt (g x) = createdAt x \<and>
             (lastActive (g x) = lastActive x \<or> lastActive (g x) = fst c)"
  show ?thesis
  proof
    fix s assume "s \<in> set (sessions (step c d))"
    then obtain x where x: "x \<in> set (sessions d)" "s = g x"
      by (auto simp: eq)
    from g have "lastActive (g x) = lastActive x \<or> lastActive (g x) = fst c" by blast
    then show "lastActive s \<le> u"
      using old c x by auto
  qed
next
  fix a
  assume "sessions (step c d) =
          sessions d @ [\<lparr>doc_id = next_id d, anonymousId = a, createdAt = fst c,
                          lastActive = fst c, actions = []\<rparr>]"
  then show ?thesis using old c by auto
qed

lemma run_bound:
  "\<forall>s\<in>set (sessions d). lastActive s \<le> u \<Longrightarrow> \<forall>c\<in>set cs. fst c \<le> u \<Longrightarrow>
   \<forall>s\<in>set (sessions (run cs d)). lastActive s \<le> u"
proof (induction cs arbitrary: d)
  case Nil
  then show ?case by simp
next
  case (Cons c cs)
  have "\<forall>s\<in>set (sessions (step c d)). lastActive s \<le> u"
    by (rule step_bound) (use Cons.prems in auto)
  from Cons.IH[OF this] Cons.prems(2) show ?case by simp
qed

lemma step_createdAt_le:
  assumes old: "\<forall>s\<in>set (sessions d). createdAt s \<le> lastActive s \<and> lastActive s \<le> fst c"
  shows "\<forall>s\<in>set (sessions (step c d)). createdAt s \<le> lastActive s"
  using step_cases[of c d]
proof (elim disjE exE conjE)
  fix g
  assume eq: "sessions (step c d) = map g (sessions d)"
    and g: "\<forall>x. doc_id (g x) = doc_id x \<and> anonymousId (g x) = anonymousId x \<and>
             createdAt (g x) = createdAt x \<and>
             (lastActive (g x) = lastActive x \<or> lastActive (g x) = fst c)"
  show ?thesis
  proof
    fix s assume "s \<in> set (sessions (step c d))"
    then obtain x where x: "x \<in> set (sessions d)" "s = g x"
      by (auto simp: eq)
    from g have "createdAt (g x) = createdAt x"
      and "lastActive (g x) = lastActive x \<or> lastActive (g x) = fst c" by blast+
    moreover from old x have "createdAt x \<le> lastActive x" "lastActive x \<le> fst c" by auto
    ultimately show "createdAt s \<le> lastActive s"
      using x(2) by auto
  qed
next
  fix a
  assume "sessions (step c d) =
          sessions d @ [\<lparr>doc_id = next_id d, anonymousId = a, createdAt = fst c,
                          lastActive = fst c, actions = []\<rparr>]"
  then show ?thesis using old by auto
qed

lemma find_append:
  "find P (xs @ ys) = (case find P xs of None \<Rightarrow> find P ys | Some x \<Rightarrow> Some x)"
  by (induction xs) auto

lemma find_by_id_member:
  "distinct (map doc_id xs) \<Longrightarrow> s \<in> set xs \<Longrightarrow> find (\<lambda>x. doc_id x = doc_id s) xs = Some s"
  by (induction xs) (auto simp: image_iff)

lemma db_get_member:
  "wf_db d \<Longrightarrow> s \<in> set (sessions d) \<Longrightarrow> db_get (doc_id s) d = Some s"
  unfolding wf_db_def db_get_def by (simp add: find_by_id_member)

lemma step_keeps:
  assumes w: "wf_db d" and s: "s \<in> set (sessions d)" and le: "lastActive s \<le> fst c"
  shows "\<exists>s'. db_get (doc_id s) (step c d) = Some s' \<and> anonymousId s' = anonymousId s \<and>
           createdAt s' = createdAt s \<and> lastActive s \<le> lastActive s'"
  using step_cases[of c d]
proof (elim disjE exE conjE)
  fix g
  assume eq: "sessions (step c d) = map g (sessions d)"
    and g: "\<forall>x. doc_id (g x) = doc_id x \<and> anonymousId (g x) = anonymousId x \<and>
             createdAt (g x) = createdAt x \<and>
             (lastActive (g x) = lastActive x \<or> lastActive (g x) = fst c)"
  have "find (\<lambda>x. doc_id x = doc_id s) (map g (sessions d)) =
        map_option g (find (\<lambda>x. doc_id x = doc_id s) (sessions d))"
    by (rule find_map_keep) (use g in simp)
  then have "db_get (doc_id s) (step c d) = Some (g s)"
    using db_get_member[OF w s] by (simp add: db_get_def eq)
  moreover from g have "anonymousId (g s) = anonymousId s" "createdAt (g s) = createdAt s"
    "lastActive (g s) = lastActive s \<or> lastActive (g s) = fst c" by blast+
  ultimately show ?thesis using le by auto
next
  fix a
  assume "sessions (step c d) =
          sessions d @ [\<lparr>doc_id = next_id d, anonymousId = a, createdAt = fst c,
                          lastActive = fst c, actions = []\<rparr>]"
  then have "db_get (doc_id s) (step c d) = Some s"
    using db_get_member[OF w s] by (simp add: db_get_def find_append)
  then show ?thesis by simp
qed

lemma db_get_SomeD: "db_get i d = Some s \<Longrightarrow> s \<in> set (sessions d) \<and> doc_id s = i"
  unfolding db_get_def by (drule find_SomeD) simp

lemma run_keeps:
  assumes "wf_db d" and "sorted (map fst cs)"
    and "\<forall>s\<in>set (sessions d). createdAt s \<le> lastActive s"
    and "\<forall>s\<in>set (sessions d). \<forall>c\<in>set cs. lastActive s \<le> fst c"
  shows "(\<forall>s\<in>set (sessions (run cs d)). createdAt s \<le> lastActive s) \<and>
         (\<forall>s\<in>set (sessions d). \<exists>s'. db_get (doc_id s) (run cs d) = Some s' \<and>
             anonymousId s' = anonymousId s \<and> createdAt s' = createdAt s \<and>
             lastActive s \<le> lastActive s')"
  using assms
proof (induction cs arbitrary: d)
  case Nil
  then show ?case by (simp add: db_get_member)
next
  case (Cons c cs)
  let ?d1 = "step c d"
  have w1: "wf_db ?d1" by (rule wf_db_step[OF Cons.prems(1)])
  have so: "sorted (map fst cs)" and first: "\<forall>c'\<in>set cs. fst c \<le> fst c'"
    using Cons.prems(2) by auto
  have cl1: "\<forall>s\<in>set (sessions ?d1). createdAt s \<le> lastActive s"
    by (rule step_createdAt_le) (use Cons.prems(3,4) in auto)
  have b1: "\<forall>s\<in>set (sessions ?d1). \<forall>c'\<in>set cs. lastActive s \<le> fst c'"
  proof (intro ballI)
    fix s c' assume s: "s \<in> set (sessions ?d1)" and c': "c' \<in> set cs"
    have "\<forall>s\<in>set (sessions ?d1). lastActive s \<le> fst c'"
      by (rule step_bound) (use Cons.prems(4) first c' in auto)
    with s show "lastActive s \<le> fst c'" by blast
  qed
  note IH = Cons.IH[OF w1 so cl1 b1]
  show ?case
  proof (intro conjI ballI)
    fix s assume "s \<in> set (sessions (run (c # cs) d))"
    then show "createdAt s \<le> lastActive s" using IH by simp
  next
    fix s assume s: "s \<in> set (sessions d)"
    with Cons.prems(4) have "lastActive s \<le> fst c" by simp
    from step_keeps[OF Cons.prems(1) s this] obtain s1 where s1:
      "db_get (doc_id s) ?d1 = Some s1" "anonymousId s1 = anonymousId s"
      "createdAt s1 = createdAt s" "lastActive s \<le> lastActive s1" by blast
    from db_get_SomeD[OF s1(1)] have m: "s1 \<in> set (sessions ?d1)" and i: "doc_id s1 = doc_id s"
      by simp_all
    from IH m obtain s' where "db_get (doc_id s1) (run cs ?d1) = Some s'"
      "anonymousId s' = anonymousId s1" "createdAt s' = createdAt s1" "lastActive s1 \<le> lastActive s'"
      by blast
    with s1 i show "\<exists>s'. db_get (doc_id s) (run (c # cs) d) = Some s' \<and>
             anonymousId s' = anonymousId s \<and> createdAt s' = createdAt s \<and>
             lastActive s \<le> lastActive s'"
      by auto
  qed
qed

lemma run_append: "run (cs1 @ cs2) d = run cs2 (run cs1 d)"
  by (induction cs1 arbitrary: d) simp_all

text \<open>
  Calls executed one after the other never leave two sessions with the same
  \<open>anonymousId\<close>: \<open>trackSession\<close> inserts only after a lookup that found none.
\<close>

lemma step_unique_anonymousId:
  assumes "distinct (map anonymousId (sessions d))"
  shows "distinct (map anonymousId (sessions (step c d)))"
  using step_cases[of c d]
proof (elim disjE exE conjE)
  fix g
  assume eq: "sessions (step c d) = map g (sessions d)"
    and g: "\<forall>x. doc_id (g x) = doc_id x \<and> anonymousId (g x) = anonymousId x \<and>
             createdAt (g x) = createdAt x \<and>
             (lastActive (g x) = lastActive x \<or> lastActive (g x) = fst c)"
  have "map anonymousId (map g (sessions d)) = map anonymousId (sessions d)"
    using g by simp
  with assms show ?thesis by (simp only: eq)
next
  fix a
  assume "sessions (step c d) =
          sessions d @ [\<lparr>doc_id = next_id d, anonymousId = a, createdAt = fst c,
                          lastActive = fst c, actions = []\<rparr>]"
    and "a \<notin> anonymousId ` set (sessions d)"
  with assms show ?thesis by simp
qed

lemma run_unique_anonymousId:
  "distinct (map anonymousId (sessions d)) \<Longrightarrow> distinct (map anonymousId (sessions (run cs d)))"
  by (induction cs arbitrary: d) (simp_all add: step_unique_anonymousId)

text \<open>
  C7. Run any history of \<open>trackSession\<close> and \<open>trackUserAction\<close> calls at non-decreasing
  times from the empty store, and look at it at any point (after \<open>cs1\<close>) and at any
  later point (after \<open>cs1 @ cs2\<close>). Every session of the later state has
  \<open>createdAt \<le> lastActive\<close>; every session of the earlier state is still there under its
  identifier, with the same \<open>anonymousId\<close>, the same \<open>createdAt\<close>, and a \<open>lastActive\<close>
  that has not decreased.
\<close>

theorem run_createdAt_lastActive:
  assumes "sorted (map fst (cs1 @ cs2))"
  shows "(\<forall>s\<in>set (sessions (run (cs1 @ cs2) empty_db)). createdAt s \<le> lastActive s) \<and>
         (\<forall>s\<in>set (sessions (run cs1 empty_db)).
            \<exists>s'. db_get (doc_id s) (run (cs1 @ cs2) empty_db) = Some s' \<and>
              anonymousId s' = anonymousId s \<and> createdAt s' = createdAt s \<and>
              lastActive s \<le> lastActive s')"
proof -
  let ?d1 = "run cs1 empty_db"
  have s1: "sorted (map fst cs1)" and s2: "sorted (map fst cs2)"
    and le: "\<forall>c1\<in>set cs1. \<forall>c2\<in>set cs2. fst c1 \<le> fst c2"
    using assms by (auto simp: sorted_append)
  have e: "sessions empty_db = []" by (simp add: empty_db_def)
  have w1: "wf_db ?d1" by (rule wf_db_run[OF wf_db_empty])
  have cl1: "\<forall>s\<in>set (sessions ?d1). createdAt s \<le> lastActive s"
    using run_keeps[OF wf_db_empty s1, unfolded e] by simp
  have b1: "\<forall>s\<in>set (sessions ?d1). \<forall>c\<in>set cs2. lastActive s \<le> fst c"
  proof (intro ballI)
    fix s c assume s: "s \<in> set (sessions ?d1)" and c: "c \<in> set cs2"
    have "\<forall>s\<in>set (sessions ?d1). lastActive s \<le> fst c"
      by (rule run_bound) (use le c in \<open>auto simp: e\<close>)
    with s show "lastActive s \<le> fst c" by blast
  qed
  show ?thesis
    unfolding run_append by (rule run_keeps[OF w1 s2 cl1 b1])
qed

theorem run_createdAt_lastActive_witness:
  "sorted (map fst ([(10::int, Upsert ''abc'')] @
                    [(20, AppendAction ''abc'' ''click'' None None), (30, Upsert ''abc'')])) \<and>
   list_all (\<lambda>s. createdAt s \<le> lastActive s)
     (sessions (run ([(10, Upsert ''abc'')] @
                     [(20, AppendAction ''abc'' ''click'' None None), (30, Upsert ''abc'')]) empty_db)) \<and>
   (\<exists>s'. db_get 0 (run ([(10, Upsert ''abc'')] @
                     [(20, AppendAction ''abc'' ''click'' None None), (30, Upsert ''abc'')]) empty_db) = Some s' \<and>
         anonymousId s' = ''abc'' \<and> createdAt s' = 10 \<and> 10 \<le> lastActive s')"
proof -
  let ?cs1 = "[(10::int, Upsert ''abc'')]"
  let ?cs2 = "[(20::int, AppendAction ''abc'' ''click'' None None), (30, Upsert ''abc'')]"
  let ?s0 = "\<lparr>doc_id = 0, anonymousId = ''abc'', createdAt = 10, lastActive = 10, actions = []\<rparr>"
  have so: "sorted (map fst (?cs1 @ ?cs2))"
    by simp
  have d1: "sessions (run ?cs1 empty_db) = [?s0]"
    by (simp add: trackSession_def first_by_anonymous_id_def empty_db_def db_insert_def)
  note t = run_createdAt_lastActive[OF so]
  from t have "\<forall>s\<in>set (sessions (run (?cs1 @ ?cs2) empty_db)). createdAt s \<le> lastActive s"
    by (rule conjunct1)
  then have a: "list_all (\<lambda>s. createdAt s \<le> lastActive s) (sessions (run (?cs1 @ ?cs2) empty_db))"
    unfolding list_all_iff .
  from t have "\<forall>s\<in>set (sessions (run ?cs1 empty_db)).
      \<exists>s'. db_get (doc_id s) (run (?cs1 @ ?cs2) empty_db) = Some s' \<and>
        anonymousId s' = anonymousId s \<and> createdAt s' = createdAt s \<and> lastActive s \<le> lastActive s'"
    by (rule conjunct2)
  then have b: "\<exists>s'. db_get (doc_id ?s0) (run (?cs1 @ ?cs2) empty_db) = Some s' \<and>
        anonymousId s' = anonymousId ?s0 \<and> createdAt s' = createdAt ?s0 \<and> lastActive ?s0 \<le> lastActive s'"
    unfolding d1 by simp
  from so a b show ?thesis by simp
qed

section \<open>getActiveSessions\<close>

text \<open>
  C2 (as the code has it). For every window \<open>w\<close> (15 when absent) and time \<open>now\<close>,
  \<open>getActiveSessions\<close> returns exactly the sessions whose \<open>lastActive\<close> is strictly
  greater than \<open>now - w * 60000\<close>, in the order of the table; a session whose
  \<open>lastActive\<close> equals that boundary is not in the result.
\<close>

theorem getActiveSessions_strict_window:
  "getActiveSessions w now d =
     filter (\<lambda>s. now - (case w of None \<Rightarrow> 15 | Some m \<Rightarrow> m) * 60000 < lastActive s) (sessions d) \<and>
   s\<lparr>lastActive := now - (case w of None \<Rightarrow> 15 | Some m \<Rightarrow> m) * 60000\<rparr>
     \<notin> set (getActiveSessions w now d)"
  by (simp add: getActiveSessions_def mult.commute)

text \<open>
  C2 as stated asks for \<open>lastActive \<ge> now - w * 60000\<close>. With \<open>w = 15\<close> and
  \<open>now = 1000000\<close> the boundary is \<open>100000\<close>; the only session has exactly that
  \<open>lastActive\<close> and the query returns nothing.
\<close>

theorem getActiveSessions_boundary_counterexample:
  "sessions (snd (trackSession ''abc'' 100000 empty_db)) =
     [\<lparr>doc_id = 0, anonymousId = ''abc'', createdAt = 100000, lastActive = 100000, actions = []\<rparr>] \<and>
   (100000::int) \<ge> 1000000 - 15 * 60000 \<and>
   getActiveSessions (Some 15) 1000000 (snd (trackSession ''abc'' 100000 empty_db)) = []"
  by (simp add: getActiveSessions_def trackSession_def first_by_anonymous_id_def empty_db_def
      db_insert_def)

section \<open>trackSession\<close>

lemma trackSession_found:
  assumes "wf_db d" and f: "first_by_anonymous_id a d = Some s"
  shows "trackSession a now d =
           (doc_id s, d\<lparr>sessions := map (\<lambda>x. if x = s then s\<lparr>lastActive := now\<rparr> else x) (sessions d)\<rparr>)"
proof -
  have "s \<in> set (sessions d)"
    using first_by_anonymous_id_Some[OF f] by simp
  moreover have "trackSession a now d = (doc_id s, db_patch (doc_id s) (\<lambda>x. x\<lparr>lastActive := now\<rparr>) d)"
    using f by (simp add: trackSession_def)
  ultimately show ?thesis
    by (simp add: patch_as_replace[OF assms(1)])
qed

lemma trackSession_new:
  assumes "wf_db d" and f: "first_by_anonymous_id a d = None"
  shows "db_get (next_id d) d = None"
    and "trackSession a now d =
           (next_id d,
            \<lparr>sessions = sessions d @ [\<lparr>doc_id = next_id d, anonymousId = a, createdAt = now,
                                        lastActive = now, actions = []\<rparr>],
             next_id = Suc (next_id d)\<rparr>)"
proof -
  show "db_get (next_id d) d = None"
    using assms(1) by (auto simp: db_get_def find_None_conv wf_db_def list_all_iff)
  show "trackSession a now d =
           (next_id d,
            \<lparr>sessions = sessions d @ [\<lparr>doc_id = next_id d, anonymousId = a, createdAt = now,
                                        lastActive = now, actions = []\<rparr>],
             next_id = Suc (next_id d)\<rparr>)"
    using f by (simp add: trackSession_def db_insert_def)
qed

text \<open>
  C4. For every \<open>anonymousId\<close>, \<open>trackSession\<close> at time \<open>now\<close> either finds a session
  with that \<open>anonymousId\<close>, sets its \<open>lastActive\<close> to \<open>now\<close>, leaves every other field
  and every other session as it was and returns the identifier of that session; or, when
  no session has that \<open>anonymousId\<close>, adds one session with a fresh identifier,
  \<open>createdAt = lastActive = now\<close> and \<open>actions = []\<close>, and returns that identifier.
\<close>

theorem trackSession_upsert:
  assumes "wf_db d"
  shows "((first_by_anonymous_id a d = None) = (a \<notin> anonymousId ` set (sessions d))) \<and>
         (\<forall>s. first_by_anonymous_id a d = Some s \<longrightarrow>
            s \<in> set (sessions d) \<and> anonymousId s = a \<and>
            trackSession a now d =
              (doc_id s,
               d\<lparr>sessions := map (\<lambda>x. if x = s then s\<lparr>lastActive := now\<rparr> else x) (sessions d)\<rparr>)) \<and>
         (first_by_anonymous_id a d = None \<longrightarrow>
            db_get (next_id d) d = None \<and>
            trackSession a now d =
              (next_id d,
               \<lparr>sessions = sessions d @ [\<lparr>doc_id = next_id d, anonymousId = a, createdAt = now,
                                           lastActive = now, actions = []\<rparr>],
                next_id = Suc (next_id d)\<rparr>)) \<and>
         wf_db (snd (trackSession a now d))"
proof (intro conjI allI impI)
  show "(first_by_anonymous_id a d = None) = (a \<notin> anonymousId ` set (sessions d))"
    by (rule first_by_anonymous_id_None)
  show "wf_db (snd (trackSession a now d))"
    by (rule wf_db_trackSession[OF assms])
next
  fix s assume f: "first_by_anonymous_id a d = Some s"
  show "s \<in> set (sessions d)" "anonymousId s = a"
    using first_by_anonymous_id_Some[OF f] by simp_all
  show "trackSession a now d =
          (doc_id s,
           d\<lparr>sessions := map (\<lambda>x. if x = s then s\<lparr>lastActive := now\<rparr> else x) (sessions d)\<rparr>)"
    by (rule trackSession_found[OF assms f])
next
  assume f: "first_by_anonymous_id a d = None"
  show "db_get (next_id d) d = None"
    by (rule trackSession_new(1)[OF assms f])
  show "trackSession a now d =
          (next_id d,
           \<lparr>sessions = sessions d @ [\<lparr>doc_id = next_id d, anonymousId = a, createdAt = now,
                                       lastActive = now, actions = []\<rparr>],
            next_id = Suc (next_id d)\<rparr>)"
    by (rule trackSession_new(2)[OF assms f])
qed

theorem trackSession_upsert_witness:
  "wf_db (snd (trackSession ''abc'' 10 empty_db)) \<and>
   trackSession ''abc'' 20 (snd (trackSession ''abc'' 10 empty_db)) =
     (0, \<lparr>sessions = [\<lparr>doc_id = 0, anonymousId = ''abc'', createdAt = 10, lastActive = 20, actions = []\<rparr>],
          next_id = 1\<rparr>) \<and>
   trackSession ''xyz'' 20 (snd (trackSession ''abc'' 10 empty_db)) =
     (1, \<lparr>sessions = [\<lparr>doc_id = 0, anonymousId = ''abc'', createdAt = 10, lastActive = 10, actions = []\<rparr>,
                      \<lparr>doc_id = 1, anonymousId = ''xyz'', createdAt = 20, lastActive = 20, actions = []\<rparr>],
          next_id = 2\<rparr>)"
proof -
  let ?s0 = "\<lparr>doc_id = 0, anonymousId = ''abc'', createdAt = 10, lastActive = 10, actions = []\<rparr>"
  let ?d0 = "\<lparr>sessions = [?s0], next_id = 1\<rparr>"
  have d0: "snd (trackSession ''abc'' 10 empty_db) = ?d0"
    by (simp add: trackSession_def first_by_anonymous_id_def empty_db_def db_insert_def)
  have w: "wf_db ?d0"
    by (simp add: wf_db_def)
  have f1: "first_by_anonymous_id ''abc'' ?d0 = Some ?s0"
    by (simp add: first_by_anonymous_id_def)
  have f2: "first_by_anonymous_id ''xyz'' ?d0 = None"
    by (simp add: first_by_anonymous_id_def)
  from trackSession_upsert[OF w, of "''abc''" 20] f1
  have "trackSession ''abc'' 20 ?d0 =
          (doc_id ?s0, ?d0\<lparr>sessions := map (\<lambda>x. if x = ?s0 then ?s0\<lparr>lastActive := 20\<rparr> else x) (sessions ?d0)\<rparr>)"
    by blast
  moreover from trackSession_upsert[OF w, of "''xyz''" 20] f2
  have "trackSession ''xyz'' 20 ?d0 =
          (next_id ?d0,
           \<lparr>sessions = sessions ?d0 @ [\<lparr>doc_id = next_id ?d0, anonymousId = ''xyz'', createdAt = 20,
                                       lastActive = 20, actions = []\<rparr>],
            next_id = Suc (next_id ?d0)\<rparr>)"
    by blast
  ultimately show ?thesis
    unfolding d0 using w by simp
qed

section \<open>trackUserAction\<close>

lemma trackUserAction_missing:
  assumes "first_by_anonymous_id a d = None"
  shows "trackUserAction a act rid md now d = (Inl (Error ''Session not found''), d)"
  using assms by (simp add: trackUserAction_def)

lemma trackUserAction_replace:
  assumes "wf_db d" and f: "first_by_anonymous_id a d = Some s"
  shows "trackUserAction a act rid md now d =
           (Inr (),
            d\<lparr>sessions := map (\<lambda>x. if x = s
                then s\<lparr>lastActive := now,
                       actions := actions s @
                         [\<lparr>action = act, timestamp = now, resourceId = rid, metadata = md\<rparr>]\<rparr>
                else x) (sessions d)\<rparr>)"
proof -
  have "s \<in> set (sessions d)"
    using first_by_anonymous_id_Some[OF f] by simp
  then show ?thesis
    unfolding trackUserAction_found(1)[OF f]
    by (simp add: patch_as_replace[OF assms(1)] entry_of_simp)
qed

text \<open>
  C3. \<open>trackUserAction\<close> throws \<open>Error('Session not found')\<close> exactly when no session has the
  given \<open>anonymousId\<close>, and has then written nothing: the store is as it was and no session
  was created. When a session is found the call succeeds, the entry
  \<open>{action, timestamp: now, resourceId, metadata}\<close> is appended at the end of its
  \<open>actions\<close>, its \<open>lastActive\<close> becomes \<open>now\<close>, and nothing else changes; a sequence of
  calls for that \<open>anonymousId\<close> all succeed and leave \<open>actions\<close> extended by one entry per
  call, in call order.
\<close>

theorem trackUserAction_append:
  assumes "wf_db d"
  shows "((fst (trackUserAction a act rid md now d) = Inl (Error ''Session not found'')) =
            (a \<notin> anonymousId ` set (sessions d))) \<and>
         ((fst (trackUserAction a act rid md now d) = Inr ()) =
            (a \<in> anonymousId ` set (sessions d))) \<and>
         (a \<notin> anonymousId ` set (sessions d) \<longrightarrow> snd (trackUserAction a act rid md now d) = d) \<and>
         (\<forall>s. first_by_anonymous_id a d = Some s \<longrightarrow>
            trackUserAction a act rid md now d =
              (Inr (),
               d\<lparr>sessions := map (\<lambda>x. if x = s
                   then s\<lparr>lastActive := now,
                          actions := actions s @
                            [\<lparr>action = act, timestamp = now, resourceId = rid, metadata = md\<rparr>]\<rparr>
                   else x) (sessions d)\<rparr>)) \<and>
         (\<forall>s cs. first_by_anonymous_id a d = Some s \<longrightarrow>
            (\<exists>d' s'. trackUserActions a cs d = (Inr (), d') \<and>
               first_by_anonymous_id a d' = Some s' \<and> doc_id s' = doc_id s \<and>
               actions s' = actions s @ map entry_of cs \<and>
               length (actions s') = length (actions s) + length cs))"
proof (intro conjI allI impI)
  show "(fst (trackUserAction a act rid md now d) = Inl (Error ''Session not found'')) =
          (a \<notin> anonymousId ` set (sessions d))"
    unfolding first_by_anonymous_id_None[symmetric]
    by (cases "first_by_anonymous_id a d") (simp_all add: trackUserAction_def)
  show "(fst (trackUserAction a act rid md now d) = Inr ()) = (a \<in> anonymousId ` set (sessions d))"
    using first_by_anonymous_id_None[of a d]
    by (cases "first_by_anonymous_id a d") (simp_all add: trackUserAction_def)
next
  assume "a \<notin> anonymousId ` set (sessions d)"
  then have "first_by_anonymous_id a d = None"
    by (simp add: first_by_anonymous_id_None)
  then show "snd (trackUserAction a act rid md now d) = d"
    by (simp add: trackUserAction_missing)
next
  fix s assume f: "first_by_anonymous_id a d = Some s"
  show "trackUserAction a act rid md now d =
          (Inr (),
           d\<lparr>sessions := map (\<lambda>x. if x = s
               then s\<lparr>lastActive := now,
                      actions := actions s @
                        [\<lparr>action = act, timestamp = now, resourceId = rid, metadata = md\<rparr>]\<rparr>
               else x) (sessions d)\<rparr>)"
    by (rule trackUserAction_replace[OF assms f])
next
  fix s cs assume f: "first_by_anonymous_id a d = Some s"
  from trackUserActions_found[OF f, of cs] obtain d' s' where
    "trackUserActions a cs d = (Inr (), d')" "first_by_anonymous_id a d' = Some s'"
    "doc_id s' = doc_id s" "actions s' = actions s @ map entry_of cs"
    by blast
  then show "\<exists>d' s'. trackUserActions a cs d = (Inr (), d') \<and>
               first_by_anonymous_id a d' = Some s' \<and> doc_id s' = doc_id s \<and>
               actions s' = actions s @ map entry_of cs \<and>
               length (actions s') = length (actions s) + length cs"
    by simp
qed

theorem trackUserAction_append_witness:
  "wf_db \<lparr>sessions = [\<lparr>doc_id = 0, anonymousId = ''abc'', createdAt = 10, lastActive = 10, actions = []\<rparr>],
          next_id = 1\<rparr> \<and>
   trackUserAction ''abc'' ''click'' None None 20
     \<lparr>sessions = [\<lparr>doc_id = 0, anonymousId = ''abc'', createdAt = 10, lastActive = 10, actions = []\<rparr>],
      next_id = 1\<rparr> =
     (Inr (),
      \<lparr>sessions = [\<lparr>doc_id = 0, anonymousId = ''abc'', createdAt = 10, lastActive = 20,
                     actions = [\<lparr>action = ''click'', timestamp = 20, resourceId = None, metadata = None\<rparr>]\<rparr>],
       next_id = 1\<rparr>) \<and>
   trackUserAction ''xyz'' ''click'' None None 20
     \<lparr>sessions = [\<lparr>doc_id = 0, anonymousId = ''abc'', createdAt = 10, lastActive = 10, actions = []\<rparr>],
      next_id = 1\<rparr> =
     (Inl (Error ''Session not found''),
      \<lparr>sessions = [\<lparr>doc_id = 0, anonymousId = ''abc'', createdAt = 10, lastActive = 10, actions = []\<rparr>],
       next_id = 1\<rparr>)"
proof -
  let ?s0 = "\<lparr>doc_id = 0, anonymousId = ''abc'', createdAt = 10, lastActive = 10, actions = []\<rparr>"
  let ?d0 = "\<lparr>sessions = [?s0], next_id = 1\<rparr>"
  have w: "wf_db ?d0"
    by (simp add: wf_db_def)
  have f1: "first_by_anonymous_id ''abc'' ?d0 = Some ?s0"
    by (simp add: first_by_anonymous_id_def)
  have f2: "''xyz'' \<notin> anonymousId ` set (sessions ?d0)"
    by simp
  note t1 = trackUserAction_append[OF w, of "''abc''" "''click''" None None 20]
  note t2 = trackUserAction_append[OF w, of "''xyz''" "''click''" None None 20]
  from t1 f1 have a: "trackUserAction ''abc'' ''click'' None None 20 ?d0 =
      (Inr (),
       ?d0\<lparr>sessions := map (\<lambda>x. if x = ?s0
           then ?s0\<lparr>lastActive := 20,
                  actions := actions ?s0 @
                    [\<lparr>action = ''click'', timestamp = 20, resourceId = None, metadata = None\<rparr>]\<rparr>
           else x) (sessions ?d0)\<rparr>)"
    by blast
  from t2 f2 have "fst (trackUserAction ''xyz'' ''click'' None None 20 ?d0) = Inl (Error ''Session not found'')"
    and "snd (trackUserAction ''xyz'' ''click'' None None 20 ?d0) = ?d0"
    by blast+
  then have b: "trackUserAction ''xyz'' ''click'' None None 20 ?d0 = (Inl (Error ''Session not found''), ?d0)"
    by (simp add: prod_eq_iff)
  from w a b show ?thesis by simp
qed

section \<open>cleanupSessionsHandler\<close>

lemma cleanup_sessions:
  assumes "wf_db d"
  shows "snd (cleanupSessionsHandler arg now d) =
           d\<lparr>sessions := filter (\<lambda>s. \<not> lastActive s < now - (case arg of None \<Rightarrow> 30 | Some n \<Rightarrow> n) * 86400000)
                            (sessions d)\<rparr>"
  by (simp add: cleanupSessionsHandler_eq[OF assms])

lemma cleanup_result:
  assumes "wf_db d"
  shows "fst (cleanupSessionsHandler arg now d) =
           [(''deletedCount'',
              int (length (filter (\<lambda>s. lastActive s < now - (case arg of None \<Rightarrow> 30 | Some n \<Rightarrow> n) * 86400000)
                             (sessions d)))),
            (''oldestDate'', now - (case arg of None \<Rightarrow> 30 | Some n \<Rightarrow> n) * 86400000)]"
  by (simp add: cleanupSessionsHandler_eq[OF assms])

lemma wf_db_cleanup: "wf_db d \<Longrightarrow> wf_db (snd (cleanupSessionsHandler arg now d))"
  by (simp add: cleanup_sessions wf_db_filter)

text \<open>
  C5 (as the code has it). For every \<open>daysInactive\<close> (30 when absent) and time \<open>now\<close>,
  \<open>cleanupSessionsHandler\<close> computes \<open>cutoff = now - daysInactive * 86400000\<close>, deletes
  exactly the sessions with \<open>lastActive < cutoff\<close> (strictly less) and returns the object
  \<open>{deletedCount, oldestDate}\<close>: \<open>deletedCount\<close> is the number of sessions deleted and
  \<open>oldestDate\<close> is the cutoff. The object has no property \<open>cutoffTimestamp\<close>.
\<close>

theorem cleanupSessionsHandler_evict:
  assumes "wf_db d"
    and "cutoff = now - (case arg of None \<Rightarrow> 30 | Some n \<Rightarrow> n) * 86400000"
  shows "sessions (snd (cleanupSessionsHandler arg now d)) =
           filter (\<lambda>s. \<not> lastActive s < cutoff) (sessions d) \<and>
         next_id (snd (cleanupSessionsHandler arg now d)) = next_id d \<and>
         map fst (fst (cleanupSessionsHandler arg now d)) = [''deletedCount'', ''oldestDate''] \<and>
         property (fst (cleanupSessionsHandler arg now d)) ''deletedCount'' =
           Some (int (length (sessions d)) -
                 int (length (sessions (snd (cleanupSessionsHandler arg now d))))) \<and>
         property (fst (cleanupSessionsHandler arg now d)) ''deletedCount'' =
           Some (int (length (filter (\<lambda>s. lastActive s < cutoff) (sessions d)))) \<and>
         property (fst (cleanupSessionsHandler arg now d)) ''oldestDate'' = Some cutoff \<and>
         property (fst (cleanupSessionsHandler arg now d)) ''cutoffTimestamp'' = None"
  unfolding cleanup_sessions[OF assms(1)] cleanup_result[OF assms(1)] assms(2)
  by (simp add: property_def length_filter_split[symmetric])

theorem cleanupSessionsHandler_evict_witness:
  "wf_db \<lparr>sessions = [\<lparr>doc_id = 0, anonymousId = ''old'', createdAt = 5, lastActive = 999, actions = []\<rparr>,
                      \<lparr>doc_id = 1, anonymousId = ''new'', createdAt = 7, lastActive = 1000, actions = []\<rparr>],
          next_id = 2\<rparr> \<and>
   (1000::int) = 86401000 - (case Some 1 of None \<Rightarrow> 30 | Some n \<Rightarrow> n) * 86400000 \<and>
   sessions (snd (cleanupSessionsHandler (Some 1) 86401000
     \<lparr>sessions = [\<lparr>doc_id = 0, anonymousId = ''old'', createdAt = 5, lastActive = 999, actions = []\<rparr>,
                   \<lparr>doc_id = 1, anonymousId = ''new'', createdAt = 7, lastActive = 1000, actions = []\<rparr>],
      next_id = 2\<rparr>)) =
     [\<lparr>doc_id = 1, anonymousId = ''new'', createdAt = 7, lastActive = 1000, actions = []\<rparr>] \<and>
   property (fst (cleanupSessionsHandler (Some 1) 86401000
     \<lparr>sessions = [\<lparr>doc_id = 0, anonymousId = ''old'', createdAt = 5, lastActive = 999, actions = []\<rparr>,
                   \<lparr>doc_id = 1, anonymousId = ''new'', createdAt = 7, lastActive = 1000, actions = []\<rparr>],
      next_id = 2\<rparr>)) ''deletedCount'' = Some 1 \<and>
   property (fst (cleanupSessionsHandler (Some 1) 86401000
     \<lparr>sessions = [\<lparr>doc_id = 0, anonymousId = ''old'', createdAt = 5, lastActive = 999, actions = []\<rparr>,
                   \<lparr>doc_id = 1, anonymousId = ''new'', createdAt = 7, lastActive = 1000, actions = []\<rparr>],
      next_id = 2\<rparr>)) ''oldestDate'' = Some 1000"
proof -
  let ?d0 = "\<lparr>sessions = [\<lparr>doc_id = 0, anonymousId = ''old'', createdAt = 5, lastActive = 999, actions = []\<rparr>,
                      \<lparr>doc_id = 1, anonymousId = ''new'', createdAt = 7, lastActive = 1000, actions = []\<rparr>],
              next_id = 2\<rparr>"
  have w: "wf_db ?d0"
    by (simp add: wf_db_def)
  have c: "(1000::int) = 86401000 - (case Some 1 of None \<Rightarrow> 30 | Some n \<Rightarrow> n) * 86400000"
    by simp
  note t = cleanupSessionsHandler_evict[OF w c]
  have 1: "sessions (snd (cleanupSessionsHandler (Some 1) 86401000 ?d0)) =
      filter (\<lambda>s. \<not> lastActive s < 1000) (sessions ?d0)"
    by (rule t[THEN conjunct1])
  have 2: "property (fst (cleanupSessionsHandler (Some 1) 86401000 ?d0)) ''deletedCount'' =
      Some (int (length (filter (\<lambda>s. lastActive s < 1000) (sessions ?d0))))"
    by (rule t[THEN conjunct2, THEN conjunct2, THEN conjunct2, THEN conjunct2, THEN conjunct1])
  have 3: "property (fst (cleanupSessionsHandler (Some 1) 86401000 ?d0)) ''oldestDate'' = Some 1000"
    by (rule t[THEN conjunct2, THEN conjunct2, THEN conjunct2, THEN conjunct2, THEN conjunct2,
          THEN conjunct1])
  show ?thesis
    unfolding 1 2 3 using w by simp
qed

text \<open>
  C5 as stated names the second property \<open>cutoffTimestamp\<close>. The object the handler
  returns has the cutoff under \<open>oldestDate\<close>; reading \<open>cutoffTimestamp\<close> gives \<open>undefined\<close>.
\<close>

theorem cleanupSessionsHandler_cutoffTimestamp_counterexample:
  "fst (cleanupSessionsHandler (Some 30) 5000000000 (snd (trackSession ''abc'' 1000 empty_db))) =
     [(''deletedCount'', 1), (''oldestDate'', 2408000000)] \<and>
   property (fst (cleanupSessionsHandler (Some 30) 5000000000 (snd (trackSession ''abc'' 1000 empty_db))))
     ''cutoffTimestamp'' = None"
  by (simp add: cleanupSessionsHandler_def property_def trackSession_def first_by_anonymous_id_def
      empty_db_def db_insert_def db_delete_def)

text \<open>
  C6 (as the code has it). In the end-to-end scenario (\<open>trackSession\<close> at \<open>T0\<close>, then
  \<open>trackUserAction\<close> at \<open>T1\<close>, so that the single session has \<open>lastActive = T1\<close>),
  \<open>cleanupOldSessions\<close> with \<open>daysInactive = 0\<close> evaluated at \<open>T1\<close> has cutoff \<open>T1\<close>, deletes
  nothing and returns \<open>deletedCount = 0\<close>; the same holds for any store whose single
  session has \<open>lastActive = T1\<close>.
\<close>

theorem cleanupOldSessions_zero_days_keeps_session:
  "cleanupOldSessions (Some 0) T1
     (snd (trackUserAction a act rid md T1 (snd (trackSession a T0 empty_db)))) =
     ([(''deletedCount'', 0), (''oldestDate'', T1)],
      \<lparr>sessions = [\<lparr>doc_id = 0, anonymousId = a, createdAt = T0, lastActive = T1,
                     actions = [\<lparr>action = act, timestamp = T1, resourceId = rid, metadata = md\<rparr>]\<rparr>],
       next_id = 1\<rparr>) \<and>
   cleanupOldSessions (Some 0) T1 \<lparr>sessions = [s\<lparr>lastActive := T1\<rparr>], next_id = n\<rparr> =
     ([(''deletedCount'', 0), (''oldestDate'', T1)],
      \<lparr>sessions = [s\<lparr>lastActive := T1\<rparr>], next_id = n\<rparr>)"
  by (simp add: cleanupOldSessions_def cleanupSessionsHandler_def trackUserAction_def
      trackSession_def first_by_anonymous_id_def empty_db_def db_insert_def db_patch_def)

text \<open>
  C6 as stated expects the session to be deleted and \<open>deletedCount = 1\<close>. With
  \<open>T0 = 1000\<close> and \<open>T1 = 2000\<close> the session stays and the count is 0.
\<close>

theorem cleanupOldSessions_zero_days_counterexample:
  "property (fst (cleanupOldSessions (Some 0) 2000
      (snd (trackUserAction ''abc'' ''click'' None None 2000 (snd (trackSession ''abc'' 1000 empty_db))))))
     ''deletedCount'' = Some 0 \<and>
   sessions (snd (cleanupOldSessions (Some 0) 2000
      (snd (trackUserAction ''abc'' ''click'' None None 2000 (snd (trackSession ''abc'' 1000 empty_db)))))) =
     [\<lparr>doc_id = 0, anonymousId = ''abc'', createdAt = 1000, lastActive = 2000,
       actions = [\<lparr>action = ''click'', timestamp = 2000, resourceId = None, metadata = None\<rparr>]\<rparr>]"
  by (simp add: cleanupOldSessions_def cleanupSessionsHandler_def property_def trackUserAction_def
      trackSession_def first_by_anonymous_id_def empty_db_def db_insert_def db_patch_def)

text \<open>
  C8 (as the code has it). Let \<open>cleanupSessionsHandler\<close> run with cutoff \<open>c1\<close> and then
  run again, with nothing changed in between, with cutoff \<open>c2\<close>, which may be the same,
  earlier or later. The second run deletes exactly the sessions that the first one kept
  and that lie below \<open>c2\<close>, those with \<open>c1 \<le> lastActive < c2\<close>, and counts them. So when
  no session is newly stale, that is when every session the first run kept has
  \<open>lastActive \<ge> c2\<close>, the second run deletes nothing and returns \<open>deletedCount = 0\<close>; this
  is always so when \<open>c2 \<le> c1\<close>.
\<close>

theorem cleanupSessionsHandler_idempotent:
  assumes "wf_db d"
    and "c1 = now1 - (case arg1 of None \<Rightarrow> 30 | Some n \<Rightarrow> n) * 86400000"
    and "c2 = now2 - (case arg2 of None \<Rightarrow> 30 | Some n \<Rightarrow> n) * 86400000"
  shows "property (fst (cleanupSessionsHandler arg2 now2 (snd (cleanupSessionsHandler arg1 now1 d))))
           ''deletedCount'' =
           Some (int (length (filter (\<lambda>s. c1 \<le> lastActive s \<and> lastActive s < c2) (sessions d)))) \<and>
         ((\<forall>s\<in>set (sessions d). c1 \<le> lastActive s \<longrightarrow> c2 \<le> lastActive s) \<longrightarrow>
            property (fst (cleanupSessionsHandler arg2 now2 (snd (cleanupSessionsHandler arg1 now1 d))))
              ''deletedCount'' = Some 0 \<and>
            snd (cleanupSessionsHandler arg2 now2 (snd (cleanupSessionsHandler arg1 now1 d))) =
              snd (cleanupSessionsHandler arg1 now1 d)) \<and>
         (c2 \<le> c1 \<longrightarrow>
            property (fst (cleanupSessionsHandler arg2 now2 (snd (cleanupSessionsHandler arg1 now1 d))))
              ''deletedCount'' = Some 0)"
proof -
  let ?d1 = "snd (cleanupSessionsHandler arg1 now1 d)"
  have w1: "wf_db ?d1" by (rule wf_db_cleanup[OF assms(1)])
  have s1: "sessions ?d1 = filter (\<lambda>s. \<not> lastActive s < c1) (sessions d)"
    by (simp add: cleanup_sessions[OF assms(1)] assms(2))
  have between: "filter (\<lambda>s. lastActive s < c2) (sessions ?d1) =
      filter (\<lambda>s. c1 \<le> lastActive s \<and> lastActive s < c2) (sessions d)"
    unfolding s1 filter_filter by (rule filter_cong[OF refl]) auto
  have count: "property (fst (cleanupSessionsHandler arg2 now2 ?d1)) ''deletedCount'' =
      Some (int (length (filter (\<lambda>s. c1 \<le> lastActive s \<and> lastActive s < c2) (sessions d))))"
    unfolding cleanup_result[OF w1] assms(3)[symmetric] between by (simp add: property_def)
  have zero: "property (fst (cleanupSessionsHandler arg2 now2 ?d1)) ''deletedCount'' = Some 0"
    and same: "snd (cleanupSessionsHandler arg2 now2 ?d1) = ?d1"
    if none: "\<forall>s\<in>set (sessions d). c1 \<le> lastActive s \<longrightarrow> c2 \<le> lastActive s"
  proof -
    from none have "filter (\<lambda>s. c1 \<le> lastActive s \<and> lastActive s < c2) (sessions d) = []"
      unfolding filter_empty_conv by auto
    then show "property (fst (cleanupSessionsHandler arg2 now2 ?d1)) ''deletedCount'' = Some 0"
      unfolding count by simp
    have "\<forall>s\<in>set (sessions ?d1). \<not> lastActive s < c2"
      unfolding s1 using none by auto
    then have "filter (\<lambda>s. \<not> lastActive s < c2) (sessions ?d1) = sessions ?d1"
      unfolding filter_id_conv .
    then show "snd (cleanupSessionsHandler arg2 now2 ?d1) = ?d1"
      unfolding cleanup_sessions[OF w1] assms(3)[symmetric] by simp
  qed
  have earlier: "property (fst (cleanupSessionsHandler arg2 now2 ?d1)) ''deletedCount'' = Some 0"
    if "c2 \<le> c1"
    by (rule zero) (use that in auto)
  from count zero same earlier show ?thesis by blast
qed

theorem cleanupSessionsHandler_idempotent_witness:
  "wf_db \<lparr>sessions = [\<lparr>doc_id = 0, anonymousId = ''old'', createdAt = 5, lastActive = 999, actions = []\<rparr>,
                      \<lparr>doc_id = 1, anonymousId = ''new'', createdAt = 7, lastActive = 5000, actions = []\<rparr>],
          next_id = 2\<rparr> \<and>
   (1000::int) = 86401000 - (case Some 1 of None \<Rightarrow> 30 | Some n \<Rightarrow> n) * 86400000 \<and>
   (4000::int) = 86404000 - (case Some 1 of None \<Rightarrow> 30 | Some n \<Rightarrow> n) * 86400000 \<and>
   list_all (\<lambda>s. \<not> 1000 \<le> lastActive s \<or> 4000 \<le> lastActive s)
     [\<lparr>doc_id = 0, anonymousId = ''old'', createdAt = 5, lastActive = 999, actions = []\<rparr>,
      \<lparr>doc_id = 1, anonymousId = ''new'', createdAt = 7, lastActive = 5000, actions = []\<rparr>] \<and>
   property (fst (cleanupSessionsHandler (Some 1) 86401000
     \<lparr>sessions = [\<lparr>doc_id = 0, anonymousId = ''old'', createdAt = 5, lastActive = 999, actions = []\<rparr>,
                   \<lparr>doc_id = 1, anonymousId = ''new'', createdAt = 7, lastActive = 5000, actions = []\<rparr>],
      next_id = 2\<rparr>)) ''deletedCount'' = Some 1 \<and>
   property (fst (cleanupSessionsHandler (Some 1) 86404000 (snd (cleanupSessionsHandler (Some 1) 86401000
     \<lparr>sessions = [\<lparr>doc_id = 0, anonymousId = ''old'', createdAt = 5, lastActive = 999, actions = []\<rparr>,
                   \<lparr>doc_id = 1, anonymousId = ''new'', createdAt = 7, lastActive = 5000, actions = []\<rparr>],
      next_id = 2\<rparr>)))) ''deletedCount'' = Some 0"
proof -
  let ?d0 = "\<lparr>sessions = [\<lparr>doc_id = 0, anonymousId = ''old'', createdAt = 5, lastActive = 999, actions = []\<rparr>,
                      \<lparr>doc_id = 1, anonymousId = ''new'', createdAt = 7, lastActive = 5000, actions = []\<rparr>],
              next_id = 2\<rparr>"
  have w: "wf_db ?d0"
    by (simp add: wf_db_def)
  have c1: "(1000::int) = 86401000 - (case Some 1 of None \<Rightarrow> 30 | Some n \<Rightarrow> n) * 86400000"
    by simp
  have c2: "(4000::int) = 86404000 - (case Some 1 of None \<Rightarrow> 30 | Some n \<Rightarrow> n) * 86400000"
    by simp
  have stale: "\<forall>s\<in>set (sessions ?d0). 1000 \<le> lastActive s \<longrightarrow> 4000 \<le> lastActive s"
    by simp
  have l: "list_all (\<lambda>s. \<not> 1000 \<le> lastActive s \<or> 4000 \<le> lastActive s) (sessions ?d0)"
    by simp
  have first: "property (fst (cleanupSessionsHandler (Some 1) 86401000 ?d0)) ''deletedCount'' = Some 1"
    by (simp add: cleanupSessionsHandler_def property_def db_delete_def)
  note t = cleanupSessionsHandler_idempotent[OF w c1 c2]
  from t[THEN conjunct2, THEN conjunct1] stale
  have second: "property (fst (cleanupSessionsHandler (Some 1) 86404000
      (snd (cleanupSessionsHandler (Some 1) 86401000 ?d0)))) ''deletedCount'' = Some 0"
    by blast
  from l have l': "list_all (\<lambda>s. \<not> 1000 \<le> lastActive s \<or> 4000 \<le> lastActive s)
     [\<lparr>doc_id = 0, anonymousId = ''old'', createdAt = 5, lastActive = 999, actions = []\<rparr>,
      \<lparr>doc_id = 1, anonymousId = ''new'', createdAt = 7, lastActive = 5000, actions = []\<rparr>]"
    by simp
  from w c1 c2 l' first second show ?thesis
    by (intro conjI)
qed

text \<open>
  C8 as stated asks for 0 at any later cutoff as long as no \<open>lastActive\<close> changed, also
  when a session has become stale in the meantime. The session below has \<open>lastActive = 100\<close>; a
  first run with \<open>daysInactive = 0\<close> at time 100 (cutoff 100) deletes nothing, and a second
  run with the same \<open>daysInactive\<close> at time 101 (cutoff 101), with nothing changed in
  between, deletes the session and returns \<open>deletedCount = 1\<close>.
\<close>

theorem cleanupSessionsHandler_later_cutoff_counterexample:
  "cleanupSessionsHandler (Some 0) 100 (snd (trackSession ''abc'' 100 empty_db)) =
     ([(''deletedCount'', 0), (''oldestDate'', 100)], snd (trackSession ''abc'' 100 empty_db)) \<and>
   property (fst (cleanupSessionsHandler (Some 0) 101
       (snd (cleanupSessionsHandler (Some 0) 100 (snd (trackSession ''abc'' 100 empty_db))))))
     ''deletedCount'' = Some 1 \<and>
   property (fst (cleanupSessionsHandler (Some 0) 101
       (snd (cleanupSessionsHandler (Some 0) 100 (snd (trackSession ''abc'' 100 empty_db))))))
     ''oldestDate'' = Some 101"
  by (simp add: cleanupSessionsHandler_def property_def trackSession_def first_by_anonymous_id_def
      empty_db_def db_insert_def db_delete_def)

text \<open>
  C10. \<open>cleanupOldSessions\<close> does not validate \<open>daysInactive\<close>: for every value \<open>n\<close>, zero
  and negative ones included, the cutoff is \<open>now - n * 86400000\<close> and exactly the sessions
  with \<open>lastActive\<close> below it are deleted. For negative \<open>n\<close> the cutoff lies after \<open>now\<close>,
  and every session last active at or before \<open>now\<close> is deleted.
\<close>

theorem cleanupOldSessions_no_validation:
  assumes "wf_db d"
  shows "sessions (snd (cleanupOldSessions (Some n) now d)) =
           filter (\<lambda>s. \<not> lastActive s < now - n * 86400000) (sessions d) \<and>
         property (fst (cleanupOldSessions (Some n) now d)) ''oldestDate'' = Some (now - n * 86400000) \<and>
         (n < 0 \<longrightarrow>
            now < now - n * 86400000 \<and>
            (\<forall>s\<in>set (sessions d). lastActive s \<le> now \<longrightarrow>
               s \<notin> set (sessions (snd (cleanupOldSessions (Some n) now d)))))"
proof -
  have s: "sessions (snd (cleanupOldSessions (Some n) now d)) =
           filter (\<lambda>s. \<not> lastActive s < now - n * 86400000) (sessions d)"
    unfolding cleanupOldSessions_def cleanup_sessions[OF assms] by simp
  have p: "property (fst (cleanupOldSessions (Some n) now d)) ''oldestDate'' = Some (now - n * 86400000)"
    unfolding cleanupOldSessions_def cleanup_result[OF assms] by (simp add: property_def)
  have neg: "now < now - n * 86400000" if "n < 0"
    using that by simp
  have del: "s \<notin> set (sessions (snd (cleanupOldSessions (Some n) now d)))"
    if "n < 0" and "lastActive s \<le> now" for s
    unfolding s using neg[OF that(1)] that(2) by simp
  from s p neg del show ?thesis by blast
qed

theorem cleanupOldSessions_no_validation_witness:
  "wf_db \<lparr>sessions = [\<lparr>doc_id = 0, anonymousId = ''abc'', createdAt = 10, lastActive = 1000, actions = []\<rparr>],
          next_id = 1\<rparr> \<and>
   sessions (snd (cleanupOldSessions (Some (- 1)) 1000
     \<lparr>sessions = [\<lparr>doc_id = 0, anonymousId = ''abc'', createdAt = 10, lastActive = 1000, actions = []\<rparr>],
      next_id = 1\<rparr>)) = [] \<and>
   property (fst (cleanupOldSessions (Some (- 1)) 1000
     \<lparr>sessions = [\<lparr>doc_id = 0, anonymousId = ''abc'', createdAt = 10, lastActive = 1000, actions = []\<rparr>],
      next_id = 1\<rparr>)) ''oldestDate'' = Some 86401000"
proof -
  let ?d0 = "\<lparr>sessions = [\<lparr>doc_id = 0, anonymousId = ''abc'', createdAt = 10, lastActive = 1000, actions = []\<rparr>],
              next_id = 1\<rparr>"
  have w: "wf_db ?d0"
    by (simp add: wf_db_def)
  note t = cleanupOldSessions_no_validation[OF w, of "- 1" 1000]
  have 1: "sessions (snd (cleanupOldSessions (Some (- 1)) 1000 ?d0)) =
      filter (\<lambda>s. \<not> lastActive s < 1000 - (- 1) * 86400000) (sessions ?d0)"
    by (rule t[THEN conjunct1])
  have 2: "property (fst (cleanupOldSessions (Some (- 1)) 1000 ?d0)) ''oldestDate'' =
      Some (1000 - (- 1) * 86400000)"
    by (rule t[THEN conjunct2, THEN conjunct1])
  show ?thesis
    unfolding 1 2 using w by simp
qed

section \<open>useSessionTracker\<close>

lemma truthy_simps:
  "truthy None = False" "truthy (Some v) = (v \<noteq> [])"
  "or_else None u = u" "or_else (Some v) u = (if v \<noteq> [] then v else u)"
  by (simp_all add: truthy_def or_else_def)

lemma useSessionTracker_no_window:
  assumes "\<not> window_defined e"
  shows "useSessionTracker k uuid e = Inr (None, e)"
  using assms by (simp add: useSessionTracker_def useSessionTracker_effect_def)

lemma useSessionTracker_no_storage:
  assumes "window_defined e" and "localStorage e = None"
  shows "useSessionTracker k uuid e = Inl StorageAccessError"
  using assms by (simp add: useSessionTracker_def useSessionTracker_effect_def getItem_def)

lemma useSessionTracker_stored:
  assumes "window_defined e" and "localStorage e = Some s" and "items s k = Some v" and "v \<noteq> []"
  shows "useSessionTracker k uuid e = Inr (Some v, e)"
  using assms
  by (simp add: useSessionTracker_def useSessionTracker_effect_def getItem_def truthy_simps)

lemma useSessionTracker_fresh:
  assumes "window_defined e" and "localStorage e = Some s"
    and "items s k = None \<or> items s k = Some []" and "accepts_writes s"
  shows "useSessionTracker k uuid e =
           Inr (Some uuid, e\<lparr>localStorage := Some (s\<lparr>items := (items s)(k \<mapsto> uuid)\<rparr>)\<rparr>)"
  using assms
  by (auto simp: useSessionTracker_def useSessionTracker_effect_def getItem_def setItem_def
      truthy_simps)

lemma useSessionTracker_write_refused:
  assumes "window_defined e" and "localStorage e = Some s"
    and "items s k = None \<or> items s k = Some []" and "\<not> accepts_writes s"
  shows "useSessionTracker k uuid e = Inl QuotaExceededError"
  using assms
  by (auto simp: useSessionTracker_def useSessionTracker_effect_def getItem_def setItem_def
      truthy_simps)

lemma useSessionTracker_again:
  assumes win: "window_defined e" and uuid: "uuid \<noteq> []"
    and res: "useSessionTracker k uuid e = Inr (r, e')"
  shows "useSessionTracker k uuid' e' = Inr (r, e') \<and> r \<noteq> None"
proof (cases "localStorage e")
  case None
  from useSessionTracker_no_storage[OF win None, of k uuid] res show ?thesis by simp
next
  case (Some s)
  show ?thesis
  proof (cases "truthy (items s k)")
    case True
    then obtain v where v: "items s k = Some v" "v \<noteq> []"
      by (cases "items s k") (simp_all add: truthy_simps)
    from useSessionTracker_stored[OF win Some v, of uuid] res
    have "r = Some v" "e' = e" by simp_all
    then show ?thesis
      using useSessionTracker_stored[OF win Some v, of uuid'] by simp
  next
    case False
    then have n: "items s k = None \<or> items s k = Some []"
      by (cases "items s k") (simp_all add: truthy_simps)
    show ?thesis
    proof (cases "accepts_writes s")
      case False
      from useSessionTracker_write_refused[OF win Some n False, of uuid] res
      show ?thesis by simp
    next
      case True
      let ?s1 = "s\<lparr>items := (items s)(k \<mapsto> uuid)\<rparr>"
      let ?e1 = "e\<lparr>localStorage := Some ?s1\<rparr>"
      from useSessionTracker_fresh[OF win Some n True, of uuid] res
      have r: "r = Some uuid" "e' = ?e1" by simp_all
      have "useSessionTracker k uuid' ?e1 = Inr (Some uuid, ?e1)"
        by (rule useSessionTracker_stored[of ?e1 ?s1]) (use win uuid in simp_all)
      with r show ?thesis by simp
    qed
  qed
qed

text \<open>
  C9 (as the code has it). For every storage state and \<open>storageKey\<close>:
  where \<open>window\<close> is undefined the hook returns \<open>null\<close>, touches nothing and does not fail,
  whatever the storage is;
  where \<open>window\<close> is defined and \<open>localStorage\<close> cannot be read, the hook throws;
  where a non-empty value is stored under \<open>storageKey\<close>, the hook returns it and writes
  nothing;
  where nothing is stored, or the empty string is, the hook takes a fresh identifier,
  stores it under \<open>storageKey\<close> and returns it, or throws when the storage refuses the
  write;
  and a further mount against the storage a successful one left returns the same
  identifier and writes nothing (fresh identifiers are not empty).
\<close>

theorem useSessionTracker_identity:
  "(\<not> window_defined e \<longrightarrow> useSessionTracker k uuid e = Inr (None, e)) \<and>
   (window_defined e \<and> localStorage e = None \<longrightarrow>
      useSessionTracker k uuid e = Inl StorageAccessError) \<and>
   (window_defined e \<and> localStorage e = Some s \<and> items s k = Some v \<and> v \<noteq> [] \<longrightarrow>
      useSessionTracker k uuid e = Inr (Some v, e)) \<and>
   (window_defined e \<and> localStorage e = Some s \<and>
    (items s k = None \<or> items s k = Some []) \<and> accepts_writes s \<longrightarrow>
      useSessionTracker k uuid e =
        Inr (Some uuid, e\<lparr>localStorage := Some (s\<lparr>items := (items s)(k \<mapsto> uuid)\<rparr>)\<rparr>)) \<and>
   (window_defined e \<and> localStorage e = Some s \<and>
    (items s k = None \<or> items s k = Some []) \<and> \<not> accepts_writes s \<longrightarrow>
      useSessionTracker k uuid e = Inl QuotaExceededError) \<and>
   (window_defined e \<and> uuid \<noteq> [] \<and> useSessionTracker k uuid e = Inr (r, e') \<longrightarrow>
      useSessionTracker k uuid' e' = Inr (r, e') \<and> r \<noteq> None)"
proof (intro conjI impI)
  assume "\<not> window_defined e"
  then show "useSessionTracker k uuid e = Inr (None, e)"
    by (rule useSessionTracker_no_window)
next
  assume "window_defined e \<and> localStorage e = None"
  then show "useSessionTracker k uuid e = Inl StorageAccessError"
    by (simp add: useSessionTracker_no_storage)
next
  assume "window_defined e \<and> localStorage e = Some s \<and> items s k = Some v \<and> v \<noteq> []"
  then show "useSessionTracker k uuid e = Inr (Some v, e)"
    by (simp add: useSessionTracker_stored)
next
  assume "window_defined e \<and> localStorage e = Some s \<and>
    (items s k = None \<or> items s k = Some []) \<and> accepts_writes s"
  then show "useSessionTracker k uuid e =
      Inr (Some uuid, e\<lparr>localStorage := Some (s\<lparr>items := (items s)(k \<mapsto> uuid)\<rparr>)\<rparr>)"
    by (simp add: useSessionTracker_fresh)
next
  assume "window_defined e \<and> localStorage e = Some s \<and>
    (items s k = None \<or> items s k = Some []) \<and> \<not> accepts_writes s"
  then show "useSessionTracker k uuid e = Inl QuotaExceededError"
    by (simp add: useSessionTracker_write_refused)
next
  assume a: "window_defined e \<and> uuid \<noteq> [] \<and> useSessionTracker k uuid e = Inr (r, e')"
  then have "useSessionTracker k uuid' e' = Inr (r, e') \<and> r \<noteq> None"
    by (simp add: useSessionTracker_again[of e uuid k r e' uuid'])
  then show "useSessionTracker k uuid' e' = Inr (r, e')" and "r \<noteq> None"
    by simp_all
qed

theorem useSessionTracker_identity_witness:
  "useSessionTracker ''anonymousUserId'' ''9b2f''
     \<lparr>window_defined = True,
      localStorage = Some \<lparr>items = [''anonymousUserId'' \<mapsto> ''41c7''], accepts_writes = True\<rparr>\<rparr> =
     Inr (Some ''41c7'',
          \<lparr>window_defined = True,
           localStorage = Some \<lparr>items = [''anonymousUserId'' \<mapsto> ''41c7''], accepts_writes = True\<rparr>\<rparr>) \<and>
   useSessionTracker ''anonymousUserId'' ''9b2f''
     \<lparr>window_defined = True, localStorage = Some \<lparr>items = Map.empty, accepts_writes = True\<rparr>\<rparr> =
     Inr (Some ''9b2f'',
          \<lparr>window_defined = True,
           localStorage = Some \<lparr>items = [''anonymousUserId'' \<mapsto> ''9b2f''], accepts_writes = True\<rparr>\<rparr>) \<and>
   useSessionTracker ''anonymousUserId'' ''77aa''
     \<lparr>window_defined = True,
      localStorage = Some \<lparr>items = [''anonymousUserId'' \<mapsto> ''9b2f''], accepts_writes = True\<rparr>\<rparr> =
     Inr (Some ''9b2f'',
          \<lparr>window_defined = True,
           localStorage = Some \<lparr>items = [''anonymousUserId'' \<mapsto> ''9b2f''], accepts_writes = True\<rparr>\<rparr>) \<and>
   useSessionTracker ''anonymousUserId'' ''9b2f''
     \<lparr>window_defined = True, localStorage = Some \<lparr>items = Map.empty, accepts_writes = False\<rparr>\<rparr> =
     Inl QuotaExceededError \<and>
   useSessionTracker ''anonymousUserId'' ''9b2f'' \<lparr>window_defined = True, localStorage = None\<rparr> =
     Inl StorageAccessError \<and>
   useSessionTracker ''anonymousUserId'' ''9b2f'' \<lparr>window_defined = False, localStorage = None\<rparr> =
     Inr (None, \<lparr>window_defined = False, localStorage = None\<rparr>)"
proof -
  let ?k = "''anonymousUserId''"
  let ?s1 = "\<lparr>items = [?k \<mapsto> ''41c7''], accepts_writes = True\<rparr>"
  let ?s2 = "\<lparr>items = Map.empty, accepts_writes = True\<rparr>"
  let ?s2' = "\<lparr>items = [?k \<mapsto> ''9b2f''], accepts_writes = True\<rparr>"
  let ?s3 = "\<lparr>items = Map.empty, accepts_writes = False\<rparr>"
  let ?e1 = "\<lparr>window_defined = True, localStorage = Some ?s1\<rparr>"
  let ?e2 = "\<lparr>window_defined = True, localStorage = Some ?s2\<rparr>"
  let ?e2' = "\<lparr>window_defined = True, localStorage = Some ?s2'\<rparr>"
  let ?e3 = "\<lparr>window_defined = True, localStorage = Some ?s3\<rparr>"
  let ?e4 = "\<lparr>window_defined = True, localStorage = None\<rparr>"
  let ?e5 = "\<lparr>window_defined = False, localStorage = None\<rparr>"
  have h1: "window_defined ?e1 \<and> localStorage ?e1 = Some ?s1 \<and> items ?s1 ?k = Some ''41c7'' \<and>
      ''41c7'' \<noteq> []"
    by simp
  have h2: "window_defined ?e2 \<and> localStorage ?e2 = Some ?s2 \<and>
      (items ?s2 ?k = None \<or> items ?s2 ?k = Some []) \<and> accepts_writes ?s2"
    by simp
  have h3: "window_defined ?e3 \<and> localStorage ?e3 = Some ?s3 \<and>
      (items ?s3 ?k = None \<or> items ?s3 ?k = Some []) \<and> \<not> accepts_writes ?s3"
    by simp
  have h4: "window_defined ?e4 \<and> localStorage ?e4 = None"
    by simp
  have h5: "\<not> window_defined ?e5"
    by simp
  from useSessionTracker_identity[of ?e1 ?k "''9b2f''" ?s1 "''41c7''"] h1
  have 1: "useSessionTracker ?k ''9b2f'' ?e1 = Inr (Some ''41c7'', ?e1)"
    by blast
  from useSessionTracker_identity[of ?e2 ?k "''9b2f''" ?s2] h2
  have "useSessionTracker ?k ''9b2f'' ?e2 =
      Inr (Some ''9b2f'', ?e2\<lparr>localStorage := Some (?s2\<lparr>items := (items ?s2)(?k \<mapsto> ''9b2f'')\<rparr>)\<rparr>)"
    by blast
  then have 2: "useSessionTracker ?k ''9b2f'' ?e2 = Inr (Some ''9b2f'', ?e2')"
    by simp
  have h6: "window_defined ?e2 \<and> ''9b2f'' \<noteq> [] \<and>
      useSessionTracker ?k ''9b2f'' ?e2 = Inr (Some ''9b2f'', ?e2')"
    using 2 by simp
  from useSessionTracker_identity[of ?e2 ?k "''9b2f''" _ _ "Some ''9b2f''" ?e2' "''77aa''"] h6
  have 3: "useSessionTracker ?k ''77aa'' ?e2' = Inr (Some ''9b2f'', ?e2')"
    by blast
  from useSessionTracker_identity[of ?e3 ?k "''9b2f''" ?s3] h3
  have 4: "useSessionTracker ?k ''9b2f'' ?e3 = Inl QuotaExceededError"
    by blast
  from useSessionTracker_identity[of ?e4 ?k "''9b2f''"] h4
  have 5: "useSessionTracker ?k ''9b2f'' ?e4 = Inl StorageAccessError"
    by blast
  from useSessionTracker_identity[of ?e5 ?k "''9b2f''"] h5
  have 6: "useSessionTracker ?k ''9b2f'' ?e5 = Inr (None, ?e5)"
    by blast
  from 1 2 3 4 5 6 show ?thesis
    by (intro conjI)
qed

text \<open>
  C9 as stated fails at two inputs. It has every stored value returned unchanged and
  without a write: the empty string can be stored, is read back as the empty string, and
  is falsy, so the hook returns the fresh identifier and overwrites the stored value.
  And it has the hook return \<open>null\<close> instead of failing wherever no storage is
  available outside a browser: in a runtime that defines \<open>window\<close> and has no
  \<open>localStorage\<close> the guard passes and \<open>getItem\<close> throws.
\<close>

theorem useSessionTracker_counterexample:
  "getItem ''anonymousUserId''
     \<lparr>window_defined = True,
      localStorage = Some \<lparr>items = [''anonymousUserId'' \<mapsto> []], accepts_writes = True\<rparr>\<rparr> =
     Inr (Some []) \<and>
   useSessionTracker ''anonymousUserId'' ''9b2f''
     \<lparr>window_defined = True,
      localStorage = Some \<lparr>items = [''anonymousUserId'' \<mapsto> []], accepts_writes = True\<rparr>\<rparr> =
     Inr (Some ''9b2f'',
          \<lparr>window_defined = True,
           localStorage = Some \<lparr>items = [''anonymousUserId'' \<mapsto> ''9b2f''], accepts_writes = True\<rparr>\<rparr>) \<and>
   useSessionTracker ''anonymousUserId'' ''9b2f'' \<lparr>window_defined = True, localStorage = None\<rparr> =
     Inl StorageAccessError"
  by (simp add: useSessionTracker_def useSessionTracker_effect_def getItem_def setItem_def
      truthy_def or_else_def Let_def)

end
